theory Spec2Isabelle
  imports Main "HOL-Library.Word" "HOL-Library.AList"
begin

section \<open>The index engine: \<^verbatim>\<open>PersistentHashTable<std::string, uint64_t>\<close>\<close>

text \<open>
  A shallow embedding of \<^verbatim>\<open>src/server.cpp\<close>. Keys are \<^verbatim>\<open>std::string\<close> (byte strings),
  index values are \<^verbatim>\<open>uint64_t\<close> offsets. The object's fields and the two files it owns
  form one record: \<^verbatim>\<open>pendingLog\<close> is the \<^verbatim>\<open>std::vector\<close> of pairs, \<^verbatim>\<open>db\<close> the
  \<^verbatim>\<open>std::unordered_map\<close>, kept as an association list with one entry per key
  (\<^verbatim>\<open>db[k] = v\<close> is \<^const>\<open>AList.update\<close>, \<^verbatim>\<open>db.find\<close> is \<^const>\<open>map_of\<close>; the list order stands
  for the container's iteration order, which the language leaves open). A file is
  \<^term>\<open>None\<close> while it does not exist and \<^term>\<open>Some text\<close> otherwise. Writing to a file
  always succeeds in this model: the source never tests a stream after writing.
\<close>

type_synonym key = string
type_synonym offset = "64 word"

record PersistentHashTable =
  pendingLog :: "(key \<times> offset) list"
  db :: "(key \<times> offset) list"
  dropping :: bool
  cancelThread :: bool
  logsFile :: "string option"
  dbFile :: "string option"

subsection \<open>Formatted output: \<^verbatim>\<open>FileWriteReadStrategy::writeToFile\<close>\<close>

text \<open>\<^verbatim>\<open>stream << n\<close> for an unsigned integer: its decimal digits, no sign, no padding.\<close>

fun show_nat :: "nat \<Rightarrow> string" where
  "show_nat n =
     (if n < 10 then [''0123456789'' ! n]
      else show_nat (n div 10) @ [''0123456789'' ! (n mod 10)])"

declare show_nat.simps [simp del]

text \<open>\<^verbatim>\<open>stream << k << ' ' << v << ' '\<close>\<close>

definition writeToFile :: "key \<Rightarrow> offset \<Rightarrow> string" where
  "writeToFile k v = k @ '' '' @ show_nat (unat v) @ '' ''"

text \<open>
  The text both \<^verbatim>\<open>dropLogs\<close> and \<^verbatim>\<open>dropTable\<close> produce: the number of entries, a
  space, then every entry in iteration order.
\<close>

definition write_entries :: "(key \<times> offset) list \<Rightarrow> string" where
  "write_entries es =
     show_nat (length es) @ '' '' @ concat (map (\<lambda>(k, v). writeToFile k v) es)"

subsection \<open>\<^verbatim>\<open>put\<close>, \<^verbatim>\<open>get\<close>, \<^verbatim>\<open>dropLogs\<close>, \<^verbatim>\<open>dropTable\<close>\<close>

definition PersistentHashTable_put ::
  "key \<Rightarrow> offset \<Rightarrow> PersistentHashTable \<Rightarrow> PersistentHashTable" where
  "PersistentHashTable_put k v s =
     (let s1 = s\<lparr>pendingLog := pendingLog s @ [(k, v)]\<rparr>
      in if \<not> dropping s1 then s1\<lparr>db := AList.update k v (db s1)\<rparr> else s1)"

text \<open>
  The loop of \<^verbatim>\<open>get\<close>: \<^verbatim>\<open>for (int i = pendingLog.size() - 1; i >= 0; i--)\<close>. The index is
  an \<^verbatim>\<open>int\<close>: the conversion from \<^verbatim>\<open>size_t\<close> keeps the low 32 bits and reads them as a
  signed number. Whenever the loop body runs, \<open>i\<close> is below the size of the vector.
\<close>

definition size_to_int :: "nat \<Rightarrow> int" where
  "size_to_int n = sint (word_of_nat n :: 32 word)"

function scan_pending :: "(key \<times> offset) list \<Rightarrow> key \<Rightarrow> int \<Rightarrow> offset option" where
  "scan_pending pl k i =
     (if 0 \<le> i then
        (if fst (pl ! nat i) = k then Some (snd (pl ! nat i))
         else scan_pending pl k (i - 1))
      else None)"
  by pat_completeness auto
termination
  by (relation "measure (\<lambda>(pl, k, i). nat (i + 1))") auto

declare scan_pending.simps [simp del]

text \<open>The result is the pointer's target; \<^term>\<open>None\<close> is \<^verbatim>\<open>NULL\<close>.\<close>

definition PersistentHashTable_get :: "PersistentHashTable \<Rightarrow> key \<Rightarrow> offset option" where
  "PersistentHashTable_get s k =
     (case (if 0 < length (pendingLog s)
            then scan_pending (pendingLog s) k (size_to_int (length (pendingLog s) - 1))
            else None) of
        Some v \<Rightarrow> Some v
      | None \<Rightarrow> map_of (db s) k)"

text \<open>
  \<^verbatim>\<open>dropLogs\<close> holds the lock from its first line to its last: one atomic step.
\<close>

definition PersistentHashTable_dropLogs :: "PersistentHashTable \<Rightarrow> PersistentHashTable" where
  "PersistentHashTable_dropLogs s =
     (let s1 = s\<lparr>logsFile := Some (write_entries (pendingLog s))\<rparr>
      in if \<not> dropping s1
         then s1\<lparr>db := fold (\<lambda>(k, v). AList.update k v) (pendingLog s1) (db s1),
                 pendingLog := []\<rparr>
         else s1)"

text \<open>
  \<^verbatim>\<open>dropTable\<close> runs on the background thread in three parts: it sets the flag under
  the lock, writes the snapshot file without the lock, and clears the flag under the
  lock. Every other method holds the lock for its whole body, so an execution of the
  two threads is an interleaving of these three steps with whole calls of the
  other methods.
\<close>

definition dropTable_begin :: "PersistentHashTable \<Rightarrow> PersistentHashTable" where
  "dropTable_begin s = s\<lparr>dropping := True\<rparr>"

definition dropTable_write :: "PersistentHashTable \<Rightarrow> PersistentHashTable" where
  "dropTable_write s = s\<lparr>dbFile := Some (write_entries (db s))\<rparr>"

definition dropTable_end :: "PersistentHashTable \<Rightarrow> PersistentHashTable" where
  "dropTable_end s = s\<lparr>dropping := False\<rparr>"

definition PersistentHashTable_dropTable :: "PersistentHashTable \<Rightarrow> PersistentHashTable" where
  "PersistentHashTable_dropTable s = dropTable_end (dropTable_write (dropTable_begin s))"

text \<open>
  What may happen between two calls of the reactor thread: flushes of the log (the
  reactor's own, once per event) and steps of the snapshot thread.
\<close>

datatype background = DropLogs | DropTableBegin | DropTableWrite | DropTableEnd

fun background_step :: "background \<Rightarrow> PersistentHashTable \<Rightarrow> PersistentHashTable" where
  "background_step DropLogs s = PersistentHashTable_dropLogs s"
| "background_step DropTableBegin s = dropTable_begin s"
| "background_step DropTableWrite s = dropTable_write s"
| "background_step DropTableEnd s = dropTable_end s"

definition background_run :: "background list \<Rightarrow> PersistentHashTable \<Rightarrow> PersistentHashTable" where
  "background_run es s = fold background_step es s"

text \<open>
  The calls of the reactor thread that write to the object: \<^verbatim>\<open>put\<close> (from a PUT
  request) and \<^verbatim>\<open>dropLogs\<close> (once per event).
\<close>

datatype call = Put key offset | Flush

fun call_step :: "call \<Rightarrow> PersistentHashTable \<Rightarrow> PersistentHashTable" where
  "call_step (Put k v) s = PersistentHashTable_put k v s"
| "call_step Flush s = PersistentHashTable_dropLogs s"

definition calls_run :: "call list \<Rightarrow> PersistentHashTable \<Rightarrow> PersistentHashTable" where
  "calls_run cs s = fold call_step cs s"

fun puts_of :: "call list \<Rightarrow> (key \<times> offset) list" where
  "puts_of [] = []"
| "puts_of (Put k v # cs) = (k, v) # puts_of cs"
| "puts_of (Flush # cs) = puts_of cs"

subsection \<open>Formatted input: \<^verbatim>\<open>std::ifstream\<close> and \<^verbatim>\<open>readFromFile\<close>\<close>

text \<open>
  An input stream is the text not yet read and the two state bits the extractions
  set. \<^verbatim>\<open>std::ifstream s(path)\<close> on a file that does not exist sets \<^verbatim>\<open>failbit\<close>;
  \<^verbatim>\<open>good()\<close> holds while no bit is set.

  The extraction operators belong to the C++ library, not to the repository; they
  are written out here as the library defines them (C++11, classic locale, decimal
  base), since what the constructor recovers is decided by them.
\<close>

record istream =
  unread :: string
  eofbit :: bool
  failbit :: bool

definition ifstream :: "string option \<Rightarrow> istream" where
  "ifstream f =
     (case f of
        None \<Rightarrow> \<lparr>unread = [], eofbit = False, failbit = True\<rparr>
      | Some text \<Rightarrow> \<lparr>unread = text, eofbit = False, failbit = False\<rparr>)"

definition good :: "istream \<Rightarrow> bool" where
  "good st = (\<not> eofbit st \<and> \<not> failbit st)"

text \<open>\<^verbatim>\<open>isspace\<close>: space, tab, line feed, vertical tab, form feed, carriage return.\<close>

definition is_space :: "char \<Rightarrow> bool" where
  "is_space c = (c \<in> set [CHR 0x20, CHR 0x09, CHR 0x0A, CHR 0x0B, CHR 0x0C, CHR 0x0D])"

definition is_digit :: "char \<Rightarrow> bool" where
  "is_digit c = (c \<in> set ''0123456789'')"

definition digit_val :: "char \<Rightarrow> nat" where
  "digit_val c = of_char c - 48"

definition digits_val :: "string \<Rightarrow> nat" where
  "digits_val ds = foldl (\<lambda>a c. 10 * a + digit_val c) 0 ds"

text \<open>
  The sentry every formatted extraction starts with: on a stream that is not good it
  sets \<^verbatim>\<open>failbit\<close>; otherwise it skips white space, and when that reaches the end of
  the text it sets \<^verbatim>\<open>eofbit\<close> and \<^verbatim>\<open>failbit\<close>. The extraction goes on only when the
  sentry succeeds (the second component).
\<close>

definition sentry :: "istream \<Rightarrow> istream \<times> bool" where
  "sentry st =
     (if \<not> good st then (st\<lparr>failbit := True\<rparr>, False)
      else let rest = dropWhile is_space (unread st)
           in if rest = [] then (st\<lparr>unread := [], eofbit := True, failbit := True\<rparr>, False)
              else (st\<lparr>unread := rest\<rparr>, True))"

text \<open>
  \<^verbatim>\<open>stream >> key\<close> for a \<^verbatim>\<open>std::string\<close>: the characters up to the next white space.
  When the sentry fails the string is left as it was, here the empty string a
  fresh \<^verbatim>\<open>std::string key\<close> holds.
\<close>

definition read_string :: "istream \<Rightarrow> string \<times> istream" where
  "read_string st =
     (case sentry st of
        (st1, False) \<Rightarrow> ([], st1)
      | (st1, True) \<Rightarrow>
          (let word = takeWhile (\<lambda>c. \<not> is_space c) (unread st1);
               rest = dropWhile (\<lambda>c. \<not> is_space c) (unread st1)
           in (word, st1\<lparr>unread := rest, eofbit := (rest = [])\<rparr>)))"

text \<open>
  The digits of a number with their optional sign: whether the sign is a minus,
  the digits, and the text after them.
\<close>

definition split_number :: "string \<Rightarrow> bool \<times> string \<times> string" where
  "split_number cs =
     (let neg = (cs \<noteq> [] \<and> hd cs = CHR ''-'');
          body = (if cs \<noteq> [] \<and> (hd cs = CHR ''-'' \<or> hd cs = CHR ''+'') then tl cs else cs)
      in (neg, takeWhile is_digit body, dropWhile is_digit body))"

text \<open>
  \<^verbatim>\<open>stream >> value\<close> for a \<^verbatim>\<open>uint64_t\<close>. The first component is what the variable
  receives: \<^term>\<open>None\<close> when nothing is stored in it (the sentry failed), so that an
  uninitialised \<^verbatim>\<open>uint64_t value\<close> stays uninitialised. With no digit the library
  stores 0 and sets \<^verbatim>\<open>failbit\<close>; on overflow it stores the largest value and sets
  \<^verbatim>\<open>failbit\<close>; a minus sign negates modulo \<open>2^64\<close>.
\<close>

definition read_uint64 :: "istream \<Rightarrow> offset option \<times> istream" where
  "read_uint64 st =
     (case sentry st of
        (st1, False) \<Rightarrow> (None, st1)
      | (st1, True) \<Rightarrow>
          (case split_number (unread st1) of (neg, ds, rest) \<Rightarrow>
             (let st2 = st1\<lparr>unread := rest, eofbit := (rest = [])\<rparr>
              in if ds = [] then (Some 0, st2\<lparr>failbit := True\<rparr>)
                 else if 2 ^ 64 \<le> digits_val ds then (Some (- 1), st2\<lparr>failbit := True\<rparr>)
                 else if neg then (Some (- word_of_nat (digits_val ds)), st2)
                 else (Some (word_of_nat (digits_val ds)), st2))))"

text \<open>
  \<^verbatim>\<open>stream >> cnt\<close> for an \<^verbatim>\<open>int\<close>: as above, with the value clamped to the range of
  \<^verbatim>\<open>int\<close> (and \<^verbatim>\<open>failbit\<close> set) when it does not fit.
\<close>

definition read_int :: "istream \<Rightarrow> int option \<times> istream" where
  "read_int st =
     (case sentry st of
        (st1, False) \<Rightarrow> (None, st1)
      | (st1, True) \<Rightarrow>
          (case split_number (unread st1) of (neg, ds, rest) \<Rightarrow>
             (let st2 = st1\<lparr>unread := rest, eofbit := (rest = [])\<rparr>;
                  n = (if neg then - int (digits_val ds) else int (digits_val ds))
              in if ds = [] then (Some 0, st2\<lparr>failbit := True\<rparr>)
                 else if n < - (2 ^ 31) then (Some (- (2 ^ 31)), st2\<lparr>failbit := True\<rparr>)
                 else if 2 ^ 31 - 1 < n then (Some (2 ^ 31 - 1), st2\<lparr>failbit := True\<rparr>)
                 else (Some n, st2))))"

text \<open>
  \<^verbatim>\<open>readFromFile\<close>: \<^verbatim>\<open>std::string key; uint64_t value; stream >> key >> value;\<close>. The
  value is \<^term>\<open>None\<close> when the function returns its uninitialised local variable.
\<close>

definition readFromFile :: "istream \<Rightarrow> (key \<times> offset option) \<times> istream" where
  "readFromFile st =
     (case read_string st of (k, st1) \<Rightarrow>
        (case read_uint64 st1 of (v, st2) \<Rightarrow> ((k, v), st2)))"

subsection \<open>Constructor and destructor\<close>

text \<open>
  Reading an uninitialised variable is undefined behaviour in C++; the model stops
  there with \<^term>\<open>UninitialisedRead\<close> instead of inventing a value. \<^term>\<open>ProcessAborted\<close>
  is a call of \<^verbatim>\<open>abort()\<close>.
\<close>

datatype failure = UninitialisedRead | ProcessAborted

text \<open>The loop \<^verbatim>\<open>for (int i = 0; i < cnt; i++) { ...; db[pair.first] = pair.second; }\<close>\<close>

fun read_entries ::
  "nat \<Rightarrow> istream \<Rightarrow> (key \<times> offset) list \<Rightarrow> failure + (key \<times> offset) list" where
  "read_entries 0 st d = Inr d"
| "read_entries (Suc n) st d =
     (case readFromFile st of
        ((k, None), st1) \<Rightarrow> Inl UninitialisedRead
      | ((k, Some v), st1) \<Rightarrow> read_entries n st1 (AList.update k v d))"

text \<open>
  One of the two blocks \<^verbatim>\<open>if (stream.good()) { int cnt; stream >> cnt; for ... }\<close> of
  the constructor. A count that is zero or negative runs the loop no time.
\<close>

definition load_file ::
  "string option \<Rightarrow> (key \<times> offset) list \<Rightarrow> failure + (key \<times> offset) list" where
  "load_file f d =
     (if good (ifstream f) then
        (case read_int (ifstream f) of
           (None, st1) \<Rightarrow> Inl UninitialisedRead
         | (Some cnt, st1) \<Rightarrow> read_entries (nat cnt) st1 d)
      else Inr d)"

text \<open>
  The constructor, given the log file and the snapshot file it finds: the snapshot
  is loaded first, the log second. (The thread it starts sleeps before its first
  snapshot; its steps are the \<^typ>\<open>background\<close> steps above.)
\<close>

definition PersistentHashTable_init ::
  "string option \<Rightarrow> string option \<Rightarrow> failure + PersistentHashTable" where
  "PersistentHashTable_init logs snapshot =
     (case load_file snapshot [] of
        Inl e \<Rightarrow> Inl e
      | Inr d1 \<Rightarrow>
          (case load_file logs d1 of
             Inl e \<Rightarrow> Inl e
           | Inr d2 \<Rightarrow>
               Inr \<lparr>pendingLog = [], db = d2, dropping = False, cancelThread = False,
                    logsFile = logs, dbFile = snapshot\<rparr>))"

text \<open>
  \<^verbatim>\<open>dropThread.join()\<close>: the thread leaves its loop at the next test of
  \<^verbatim>\<open>cancelThread\<close>; a \<^verbatim>\<open>dropTable\<close> it is in the middle of runs to its end first.
\<close>

definition join_dropThread :: "PersistentHashTable \<Rightarrow> PersistentHashTable" where
  "join_dropThread s = (if dropping s then dropTable_end (dropTable_write s) else s)"

definition PersistentHashTable_destroy :: "PersistentHashTable \<Rightarrow> PersistentHashTable" where
  "PersistentHashTable_destroy s =
     PersistentHashTable_dropLogs (join_dropThread (s\<lparr>cancelThread := True\<rparr>))"

text \<open>A restart of the process: a new object is constructed over the files left behind.\<close>

definition restart :: "PersistentHashTable \<Rightarrow> failure + PersistentHashTable" where
  "restart s = PersistentHashTable_init (logsFile s) (dbFile s)"

definition fresh_table :: PersistentHashTable where
  "fresh_table =
     \<lparr>pendingLog = [], db = [], dropping = False, cancelThread = False,
      logsFile = None, dbFile = None\<rparr>"

subsection \<open>What the index engine holds for a key\<close>

text \<open>
  The most recent entry of a key in a list of pairs, and the value the engine holds
  for a key (the most recent pending entry, else the entry of \<^verbatim>\<open>db\<close>): the
  specification \<^verbatim>\<open>get\<close> is compared with below.
\<close>

definition latest :: "(key \<times> offset) list \<Rightarrow> key \<Rightarrow> offset option" where
  "latest pl k = map_of (rev pl) k"

definition logical_value :: "PersistentHashTable \<Rightarrow> key \<Rightarrow> offset option" where
  "logical_value s k =
     (case latest (pendingLog s) k of Some v \<Rightarrow> Some v | None \<Rightarrow> map_of (db s) k)"

text \<open>A key that survives \<^verbatim>\<open>writeToFile\<close> and \<^verbatim>\<open>readFromFile\<close>: not empty, no white space.\<close>

definition plain_key :: "key \<Rightarrow> bool" where
  "plain_key k = (k \<noteq> [] \<and> list_all (\<lambda>c. \<not> is_space c) k)"

section \<open>The value store: \<^verbatim>\<open>BinaryPersistentHashTable\<close>\<close>

text \<open>
  The object holds a reference to the index engine and the \<^verbatim>\<open>FILE*\<close> of the value
  file, opened by \<^verbatim>\<open>fopen(path, "ab+")\<close>. The stream is its bytes (those still in the
  library's buffer included) and its file position indicator. In append mode every
  write goes to the end of the file, wherever the indicator is, and leaves the
  indicator at the new end. After \<^verbatim>\<open>fopen\<close> the indicator is at the start of the file:
  the C standard leaves the choice between start and end to the implementation, and
  the C libraries of Linux, the only system with \<^verbatim>\<open>sys/epoll.h\<close>, take the start.
\<close>

record BinaryPersistentHashTable =
  table :: PersistentHashTable
  contents :: string
  position :: nat

definition BinaryPersistentHashTable_init ::
  "string option \<Rightarrow> PersistentHashTable \<Rightarrow> BinaryPersistentHashTable" where
  "BinaryPersistentHashTable_init file t =
     \<lparr>table = t, contents = (case file of None \<Rightarrow> [] | Some bytes \<Rightarrow> bytes), position = 0\<rparr>"

text \<open>
  The object representation of an unsigned integer of \<open>k\<close> bytes, least significant
  byte first, and the integer a sequence of bytes represents.
\<close>

fun le_bytes :: "nat \<Rightarrow> nat \<Rightarrow> string" where
  "le_bytes 0 n = []"
| "le_bytes (Suc k) n = char_of (n mod 256) # le_bytes k (n div 256)"

fun le_value :: "string \<Rightarrow> nat" where
  "le_value [] = 0"
| "le_value (c # cs) = of_char c + 256 * le_value cs"

text \<open>
  \<^verbatim>\<open>fseek(f, *offset, SEEK_SET)\<close>: the offset is passed as a \<^verbatim>\<open>long\<close>; one that is
  negative as a \<^verbatim>\<open>long\<close> makes the call fail and leaves the indicator where it was.
\<close>

definition fseek_set :: "nat \<Rightarrow> offset \<Rightarrow> nat" where
  "fseek_set pos off = (if unat off < 2 ^ 63 then unat off else pos)"

text \<open>
  \<^verbatim>\<open>get\<close>. The first \<^verbatim>\<open>fread\<close> fills \<^verbatim>\<open>sz\<close> only when eight bytes are there to read;
  the second reads at most \<^verbatim>\<open>sz\<close> bytes into a string of \<^verbatim>\<open>sz\<close> zero bytes. Allocating
  that string is taken to succeed.
\<close>

definition BinaryPersistentHashTable_get ::
  "BinaryPersistentHashTable \<Rightarrow> key \<Rightarrow> (failure + string) \<times> BinaryPersistentHashTable" where
  "BinaryPersistentHashTable_get s k =
     (case PersistentHashTable_get (table s) k of
        None \<Rightarrow> (Inr [], s)
      | Some off \<Rightarrow>
          (let pos = fseek_set (position s) off;
               field = take 8 (drop pos (contents s));
               s1 = s\<lparr>position := length (contents s)\<rparr>
           in if length field < 8 then (Inl UninitialisedRead, s1)
              else (let sz = le_value field;
                        bytes = take sz (drop (pos + 8) (contents s))
                    in (Inr (bytes @ replicate (sz - length bytes) (CHR 0x00)), s1))))"

text \<open>
  \<^verbatim>\<open>put\<close>: \<^verbatim>\<open>sz = value.size(); offset = ftell(f); fwrite(&sz, ...); fwrite(value.c_str(), ...);
  table.put(key, offset)\<close>.
\<close>

definition BinaryPersistentHashTable_put ::
  "key \<Rightarrow> string \<Rightarrow> BinaryPersistentHashTable \<Rightarrow> BinaryPersistentHashTable" where
  "BinaryPersistentHashTable_put k val s =
     (let sz = (word_of_nat (length val) :: 64 word);
          off = (word_of_nat (position s) :: 64 word);
          bytes = contents s @ le_bytes 8 (unat sz) @ take (unat sz) val
      in s\<lparr>contents := bytes, position := length bytes,
            table := PersistentHashTable_put k off (table s)\<rparr>)"

section \<open>The request handlers of \<^verbatim>\<open>main\<close>\<close>

text \<open>
  The messages are those of \<^verbatim>\<open>kv.proto\<close>, which is not among the sources: a request
  identifier of some type \<open>'id\<close>, a key, and the value in the field named
  \<^verbatim>\<open>offset\<close>, which a response may leave unset. \<^verbatim>\<open>ParseFromArray\<close> is a parameter of the
  handlers: a function that decodes a payload or rejects it. The handlers return the
  response message; its encoding belongs to the missing headers.
\<close>

record 'id TGetRequest =
  get_request_id :: 'id
  get_key :: string

record 'id TPutRequest =
  put_request_id :: 'id
  put_key :: string
  put_offset :: string

record 'id TGetResponse =
  get_response_id :: 'id
  get_response_offset :: "string option"

record 'id TPutResponse =
  put_response_id :: 'id

datatype 'id response = GetResponse "'id TGetResponse" | PutResponse "'id TPutResponse"

definition handle_get ::
  "(string \<Rightarrow> 'id TGetRequest option) \<Rightarrow> string \<Rightarrow> BinaryPersistentHashTable \<Rightarrow>
   failure + ('id response \<times> BinaryPersistentHashTable)" where
  "handle_get ParseFromArray request s =
     (case ParseFromArray request of
        None \<Rightarrow> Inl ProcessAborted
      | Some get_request \<Rightarrow>
          (case BinaryPersistentHashTable_get s (get_key get_request) of
             (Inl e, s1) \<Rightarrow> Inl e
           | (Inr it, s1) \<Rightarrow>
               Inr (GetResponse
                      \<lparr>get_response_id = get_request_id get_request,
                       get_response_offset = (if it \<noteq> [] then Some it else None)\<rparr>,
                    s1)))"

definition handle_put ::
  "(string \<Rightarrow> 'id TPutRequest option) \<Rightarrow> string \<Rightarrow> BinaryPersistentHashTable \<Rightarrow>
   failure + ('id response \<times> BinaryPersistentHashTable)" where
  "handle_put ParseFromArray request s =
     (case ParseFromArray request of
        None \<Rightarrow> Inl ProcessAborted
      | Some put_request \<Rightarrow>
          Inr (PutResponse \<lparr>put_response_id = put_request_id put_request\<rparr>,
               BinaryPersistentHashTable_put (put_key put_request) (put_offset put_request) s))"

text \<open>
  The \<^verbatim>\<open>Handler\<close> passed to \<^verbatim>\<open>process_input\<close>. The two tags are constants of
  \<^verbatim>\<open>protocol.h\<close>, taken as parameters.
\<close>

definition handler ::
  "char \<Rightarrow> char \<Rightarrow> (string \<Rightarrow> 'id TPutRequest option) \<Rightarrow> (string \<Rightarrow> 'id TGetRequest option) \<Rightarrow>
   char \<Rightarrow> string \<Rightarrow> BinaryPersistentHashTable \<Rightarrow>
   failure + ('id response \<times> BinaryPersistentHashTable)" where
  "handler PUT_REQUEST GET_REQUEST parse_put parse_get request_type request s =
     (if request_type = PUT_REQUEST then handle_put parse_put request s
      else if request_type = GET_REQUEST then handle_get parse_get request s
      else Inl ProcessAborted)"

section \<open>Properties of the index engine\<close>

subsection \<open>\<^verbatim>\<open>get\<close> returns the most recent value\<close>

lemma size_to_int_small: "n < 2 ^ 31 \<Longrightarrow> size_to_int n = int n"
proof -
  assume "n < 2 ^ 31"
  then have "int n < 2 ^ 31"
    by (metis of_nat_less_numeral_power_cancel_iff)
  then have "signed_take_bit 31 (int n) = int n"
    by (intro signed_take_bit_int_eq_self) simp_all
  moreover have "(word_of_nat n :: 32 word) = word_of_int (int n)"
    by simp
  then have "sint (word_of_nat n :: 32 word) = signed_take_bit 31 (int n)"
    by (simp only: sint_sbintrunc') simp
  ultimately show ?thesis
    by (simp add: size_to_int_def)
qed

lemma scan_pending_take:
  "- 1 \<le> i \<Longrightarrow> i < int (length pl) \<Longrightarrow>
   scan_pending pl k i = latest (take (nat (i + 1)) pl) k"
proof (induction pl k i rule: scan_pending.induct)
  case (1 pl k i)
  show ?case
  proof (cases "0 \<le> i")
    case False
    with "1.prems" have "i = - 1" by simp
    then show ?thesis by (simp add: scan_pending.simps latest_def)
  next
    case True
    then have n: "nat (i + 1) = Suc (nat i)" by simp
    from True "1.prems" have lt: "nat i < length pl" by simp
    have tk: "take (Suc (nat i)) pl = take (nat i) pl @ [pl ! nat i]"
      using lt by (simp add: take_Suc_conv_app_nth)
    show ?thesis
    proof (cases "fst (pl ! nat i) = k")
      case True
      with \<open>0 \<le> i\<close> show ?thesis
        by (subst scan_pending.simps) (simp add: n tk latest_def split: prod.splits)
    next
      case False
      have "scan_pending pl k (i - 1) = latest (take (nat (i - 1 + 1)) pl) k"
        using "1.IH" [OF True False] True "1.prems" by simp
      with False True show ?thesis
        by (subst scan_pending.simps) (auto simp add: n tk latest_def split: prod.splits)
    qed
  qed
qed

text \<open>
  As long as the pending log has at most \<open>2^31\<close> entries, the \<^verbatim>\<open>int\<close> index of the loop
  is the index it stands for and \<^verbatim>\<open>get\<close> returns the value the engine holds.
\<close>

lemma get_logical_value:
  assumes "length (pendingLog s) \<le> 2 ^ 31"
  shows "PersistentHashTable_get s k = logical_value s k"
proof (cases "pendingLog s = []")
  case True
  then show ?thesis
    by (simp add: PersistentHashTable_get_def logical_value_def latest_def)
next
  case False
  define n where "n = length (pendingLog s) - 1"
  from False have len: "length (pendingLog s) = Suc n"
    by (cases "pendingLog s") (simp_all add: n_def)
  with assms have "n < 2 ^ 31" by simp
  then have i: "size_to_int n = int n"
    by (rule size_to_int_small)
  have "scan_pending (pendingLog s) k (int n) = latest (take (nat (int n + 1)) (pendingLog s)) k"
    by (rule scan_pending_take) (simp_all add: len)
  moreover have "nat (int n + 1) = Suc n" by simp
  ultimately have "scan_pending (pendingLog s) k (size_to_int n) = latest (pendingLog s) k"
    by (simp add: i len)
  then show ?thesis
    unfolding PersistentHashTable_get_def logical_value_def n_def [symmetric]
    by (simp add: len)
qed

lemma map_of_fold_update:
  "map_of (fold (\<lambda>(k, v). AList.update k v) pl d) k =
     (case latest pl k of Some v \<Rightarrow> Some v | None \<Rightarrow> map_of d k)"
proof (induction pl arbitrary: d)
  case Nil
  then show ?case by (simp add: latest_def)
next
  case (Cons e pl)
  obtain k' v' where e: "e = (k', v')" by (cases e)
  show ?case
    by (simp add: Cons.IH e latest_def update_conv' map_add_def split: option.splits)
qed

lemma logical_value_dropLogs:
  "logical_value (PersistentHashTable_dropLogs s) k = logical_value s k"
  by (simp add: PersistentHashTable_dropLogs_def logical_value_def Let_def map_of_fold_update
      latest_def split: option.splits)

lemma logical_value_background_step:
  "logical_value (background_step e s) k = logical_value s k"
  by (cases e)
     (simp_all add: logical_value_dropLogs,
      simp_all add: logical_value_def dropTable_begin_def dropTable_write_def dropTable_end_def
        split: option.splits)

lemma logical_value_background_run:
  "logical_value (background_run es s) k = logical_value s k"
  unfolding background_run_def
  by (induction es arbitrary: s) (simp_all add: logical_value_background_step)

lemma length_pendingLog_background_step:
  "length (pendingLog (background_step e s)) \<le> length (pendingLog s)"
  by (cases e)
     (simp_all add: PersistentHashTable_dropLogs_def Let_def
        dropTable_begin_def dropTable_write_def dropTable_end_def)

lemma length_pendingLog_background_run:
  "length (pendingLog (background_run es s)) \<le> length (pendingLog s)"
  unfolding background_run_def
proof (induction es arbitrary: s)
  case Nil
  show ?case by simp
next
  case (Cons e es)
  have "length (pendingLog (fold background_step es (background_step e s)))
        \<le> length (pendingLog (background_step e s))"
    by (rule Cons.IH)
  also have "\<dots> \<le> length (pendingLog s)"
    by (rule length_pendingLog_background_step)
  finally show ?case by simp
qed

lemma length_pendingLog_put:
  "length (pendingLog (PersistentHashTable_put k v s)) = Suc (length (pendingLog s))"
  by (simp add: PersistentHashTable_put_def Let_def)

lemma logical_value_put_same:
  "logical_value (PersistentHashTable_put k v s) k = Some v"
  by (simp add: PersistentHashTable_put_def Let_def logical_value_def latest_def)

lemma logical_value_put_other:
  "k' \<noteq> k \<Longrightarrow> logical_value (PersistentHashTable_put k v s) k' = logical_value s k'"
  by (simp add: PersistentHashTable_put_def Let_def logical_value_def latest_def update_conv'
      split: option.splits)

text \<open>
  C1 (last write wins). From any state whose pending log leaves room for two more
  entries within the range of the \<^verbatim>\<open>int\<close> index of \<^verbatim>\<open>get\<close>: \<^verbatim>\<open>put(K, V1)\<close>, then
  \<^verbatim>\<open>put(K, V2)\<close>, then \<^verbatim>\<open>get(K)\<close> returns \<open>V2\<close>, whatever flushes of the log and steps of
  the snapshot thread run before, between and after the two writes.
\<close>

theorem last_write_wins:
  assumes "length (pendingLog s) + 2 \<le> 2 ^ 31"
  shows "PersistentHashTable_get
           (background_run es3
             (PersistentHashTable_put K V2
               (background_run es2
                 (PersistentHashTable_put K V1 (background_run es1 s))))) K = Some V2"
proof -
  let ?s1 = "background_run es1 s"
  let ?s2 = "background_run es2 (PersistentHashTable_put K V1 ?s1)"
  let ?s3 = "background_run es3 (PersistentHashTable_put K V2 ?s2)"
  have "length (pendingLog ?s1) \<le> length (pendingLog s)"
    by (rule length_pendingLog_background_run)
  moreover have "length (pendingLog ?s2) \<le> Suc (length (pendingLog ?s1))"
    using length_pendingLog_background_run [of es2 "PersistentHashTable_put K V1 ?s1"]
    by (simp add: length_pendingLog_put)
  moreover have "length (pendingLog ?s3) \<le> Suc (length (pendingLog ?s2))"
    using length_pendingLog_background_run [of es3 "PersistentHashTable_put K V2 ?s2"]
    by (simp add: length_pendingLog_put)
  ultimately have "length (pendingLog ?s3) \<le> 2 ^ 31"
    using assms by linarith
  then have "PersistentHashTable_get ?s3 K = logical_value ?s3 K"
    by (rule get_logical_value)
  also have "\<dots> = Some V2"
    by (simp add: logical_value_background_run logical_value_put_same)
  finally show ?thesis .
qed

theorem last_write_wins_witness:
  "length (pendingLog fresh_table) + 2 \<le> (2::nat) ^ 31 \<and>
   PersistentHashTable_get
     (background_run [DropTableWrite, DropTableEnd, DropLogs]
       (PersistentHashTable_put ''k'' 9
         (background_run [DropLogs, DropTableBegin]
           (PersistentHashTable_put ''k'' 0 (background_run [] fresh_table))))) ''k'' = Some 9"
proof -
  have h: "length (pendingLog fresh_table) + 2 \<le> (2::nat) ^ 31"
    by (simp add: fresh_table_def)
  from last_write_wins [OF h] h show ?thesis
    by blast
qed

subsection \<open>No merge while a snapshot is in flight\<close>

lemma put_while_dropping:
  "dropping s \<Longrightarrow>
   PersistentHashTable_put k v s = s\<lparr>pendingLog := pendingLog s @ [(k, v)]\<rparr>"
  by (simp add: PersistentHashTable_put_def Let_def)

lemma dropLogs_while_dropping:
  "dropping s \<Longrightarrow>
   PersistentHashTable_dropLogs s = s\<lparr>logsFile := Some (write_entries (pendingLog s))\<rparr>"
  by (simp add: PersistentHashTable_dropLogs_def Let_def)

lemma calls_run_while_dropping:
  "dropping s \<Longrightarrow>
   db (calls_run cs s) = db s \<and> dropping (calls_run cs s) \<and>
   pendingLog (calls_run cs s) = pendingLog s @ puts_of cs"
  unfolding calls_run_def
proof (induction cs arbitrary: s)
  case Nil
  then show ?case by simp
next
  case (Cons c cs)
  show ?case
  proof (cases c)
    case (Put k v)
    let ?s = "s\<lparr>pendingLog := pendingLog s @ [(k, v)]\<rparr>"
    have "dropping ?s" using Cons.prems by simp
    from Cons.IH [OF this] show ?thesis
      by (simp add: Put put_while_dropping [OF Cons.prems])
  next
    case Flush
    let ?s = "s\<lparr>logsFile := Some (write_entries (pendingLog s))\<rparr>"
    have "dropping ?s" using Cons.prems by simp
    from Cons.IH [OF this] show ?thesis
      by (simp add: Flush dropLogs_while_dropping [OF Cons.prems])
  qed
qed

text \<open>
  C3 (invariant I2). While \<^verbatim>\<open>dropping\<close> is set, \<^verbatim>\<open>put\<close> appends its pair to
  \<^verbatim>\<open>pendingLog\<close> and leaves \<^verbatim>\<open>db\<close> as it is; \<^verbatim>\<open>dropLogs\<close> rewrites the log file from
  \<^verbatim>\<open>pendingLog\<close> and changes neither \<^verbatim>\<open>db\<close> nor \<^verbatim>\<open>pendingLog\<close>; the snapshot writer
  changes neither; and after any sequence of such calls \<^verbatim>\<open>db\<close> is still the same, the
  flag is still set and every pair written since is still pending.
\<close>

theorem no_merge_while_snapshot_in_flight:
  assumes "dropping s"
  shows "db (PersistentHashTable_put k v s) = db s \<and>
         pendingLog (PersistentHashTable_put k v s) = pendingLog s @ [(k, v)] \<and>
         dropping (PersistentHashTable_put k v s) \<and>
         db (PersistentHashTable_dropLogs s) = db s \<and>
         pendingLog (PersistentHashTable_dropLogs s) = pendingLog s \<and>
         dropping (PersistentHashTable_dropLogs s) \<and>
         logsFile (PersistentHashTable_dropLogs s) = Some (write_entries (pendingLog s)) \<and>
         db (dropTable_write s) = db s \<and>
         pendingLog (dropTable_write s) = pendingLog s \<and>
         db (calls_run cs s) = db s \<and>
         pendingLog (calls_run cs s) = pendingLog s @ puts_of cs \<and>
         dropping (calls_run cs s)"
  using calls_run_while_dropping [OF assms, of cs] assms
  by (simp add: put_while_dropping [OF assms] dropLogs_while_dropping [OF assms]
      dropTable_write_def)

theorem no_merge_while_snapshot_in_flight_witness:
  "dropping (dropTable_begin fresh_table) \<and>
   db (PersistentHashTable_put ''k'' 7 (dropTable_begin fresh_table)) = [] \<and>
   pendingLog (PersistentHashTable_dropLogs
                 (PersistentHashTable_put ''k'' 7 (dropTable_begin fresh_table))) = [(''k'', 7)] \<and>
   db (calls_run [Put ''k'' 7, Flush, Put ''j'' 8, Flush] (dropTable_begin fresh_table)) = [] \<and>
   pendingLog (calls_run [Put ''k'' 7, Flush, Put ''j'' 8, Flush] (dropTable_begin fresh_table))
     = [(''k'', 7), (''j'', 8)]"
proof -
  have h: "dropping (dropTable_begin fresh_table)"
    by (simp add: dropTable_begin_def)
  have h2: "dropping (PersistentHashTable_put ''k'' 7 (dropTable_begin fresh_table))"
    using no_merge_while_snapshot_in_flight [OF h, of "''k''" 7] by simp
  from no_merge_while_snapshot_in_flight [OF h, of "''k''" 7 "[Put ''k'' 7, Flush, Put ''j'' 8, Flush]"]
    no_merge_while_snapshot_in_flight [OF h2, of "''k''" 7 "[]"]
  show ?thesis
    using h by (simp add: dropTable_begin_def fresh_table_def)
qed

subsection \<open>Writes during a snapshot\<close>

text \<open>
  C4 (snapshot non-interference). A \<^verbatim>\<open>put(K, V)\<close> made while \<^verbatim>\<open>dropping\<close> is set (with
  a pending log below \<open>2^31\<close> entries) is returned by \<^verbatim>\<open>get(K)\<close> at once and after any
  flushes and snapshot steps; once the snapshot has finished and \<^verbatim>\<open>dropLogs\<close> has run,
  \<^verbatim>\<open>get(K)\<close> still returns \<open>V\<close>, \<^verbatim>\<open>db\<close> maps \<open>K\<close> to \<open>V\<close>, and the log file holds the pair.
\<close>

theorem put_during_snapshot_not_lost:
  assumes "dropping s" and "length (pendingLog s) < 2 ^ 31"
  shows "PersistentHashTable_get (PersistentHashTable_put K V s) K = Some V \<and>
         PersistentHashTable_get (background_run es (PersistentHashTable_put K V s)) K = Some V \<and>
         PersistentHashTable_get
           (PersistentHashTable_dropLogs (dropTable_end (dropTable_write
             (PersistentHashTable_put K V s)))) K = Some V \<and>
         map_of (db (PersistentHashTable_dropLogs (dropTable_end (dropTable_write
             (PersistentHashTable_put K V s))))) K = Some V \<and>
         logsFile (PersistentHashTable_dropLogs (dropTable_end (dropTable_write
             (PersistentHashTable_put K V s)))) = Some (write_entries (pendingLog s @ [(K, V)]))"
proof -
  let ?p = "PersistentHashTable_put K V s"
  let ?f = "PersistentHashTable_dropLogs (dropTable_end (dropTable_write ?p))"
  have len: "length (pendingLog ?p) \<le> 2 ^ 31"
    using assms(2) by (simp add: length_pendingLog_put)
  have a: "PersistentHashTable_get ?p K = Some V"
    by (simp add: get_logical_value [OF len] logical_value_put_same)
  have "length (pendingLog (background_run es ?p)) \<le> 2 ^ 31"
    using length_pendingLog_background_run [of es ?p] len by linarith
  then have b: "PersistentHashTable_get (background_run es ?p) K = Some V"
    by (simp add: get_logical_value logical_value_background_run logical_value_put_same)
  have f: "?f = background_run [DropTableWrite, DropTableEnd, DropLogs] ?p"
    by (simp add: background_run_def)
  have "length (pendingLog ?f) \<le> 2 ^ 31"
    unfolding f using length_pendingLog_background_run [of _ ?p] len by (meson le_trans)
  then have c: "PersistentHashTable_get ?f K = Some V"
    unfolding f
    by (simp add: get_logical_value logical_value_background_run logical_value_put_same)
  have pl: "pendingLog ?f = []"
    by (simp add: PersistentHashTable_dropLogs_def Let_def dropTable_end_def)
  have "logical_value ?f K = Some V"
    unfolding f by (simp add: logical_value_background_run logical_value_put_same)
  then have d: "map_of (db ?f) K = Some V"
    by (simp add: logical_value_def latest_def pl)
  have e: "logsFile ?f = Some (write_entries (pendingLog s @ [(K, V)]))"
    using assms(1)
    by (simp add: PersistentHashTable_dropLogs_def Let_def dropTable_end_def dropTable_write_def
        put_while_dropping)
  from a b c d e show ?thesis by blast
qed

theorem put_during_snapshot_not_lost_witness:
  "dropping (dropTable_begin fresh_table) \<and>
   length (pendingLog (dropTable_begin fresh_table)) < (2::nat) ^ 31 \<and>
   PersistentHashTable_get (PersistentHashTable_put ''k'' 7 (dropTable_begin fresh_table)) ''k''
     = Some 7 \<and>
   PersistentHashTable_get
     (PersistentHashTable_dropLogs (dropTable_end (dropTable_write
       (PersistentHashTable_put ''k'' 7 (dropTable_begin fresh_table))))) ''k'' = Some 7"
proof -
  have h1: "dropping (dropTable_begin fresh_table)"
    by (simp add: dropTable_begin_def)
  have h2: "length (pendingLog (dropTable_begin fresh_table)) < (2::nat) ^ 31"
    by (simp add: dropTable_begin_def fresh_table_def)
  from put_during_snapshot_not_lost [OF h1 h2, of "''k''" 7 "[]"] h1 h2 show ?thesis
    by blast
qed

section \<open>Durability: flushing, shutting down, restarting\<close>

text \<open>The definitions a concrete run of the engine and of a recovery unfolds.\<close>

lemmas engine_defs =
  PersistentHashTable_put_def PersistentHashTable_get_def PersistentHashTable_dropLogs_def
  PersistentHashTable_dropTable_def dropTable_begin_def dropTable_write_def dropTable_end_def
  join_dropThread_def PersistentHashTable_destroy_def fresh_table_def Let_def
  write_entries_def writeToFile_def

lemmas recovery_defs =
  restart_def PersistentHashTable_init_def load_file_def ifstream_def good_def read_int_def
  sentry_def is_space_def split_number_def is_digit_def digits_val_def digit_val_def
  readFromFile_def read_string_def read_uint64_def

lemma show_nat_digit [simp]: "n < 10 \<Longrightarrow> show_nat n = [''0123456789'' ! n]"
  by (simp add: show_nat.simps)

lemma dropLogs_empty_pending:
  "pendingLog s = [] \<Longrightarrow>
   PersistentHashTable_dropLogs s = s\<lparr>logsFile := Some (write_entries [])\<rparr>"
  by (cases "dropping s") (simp_all add: PersistentHashTable_dropLogs_def Let_def)

text \<open>
  \<^verbatim>\<open>dropLogs\<close> on an empty \<^verbatim>\<open>pendingLog\<close> leaves \<^verbatim>\<open>pendingLog\<close>, \<^verbatim>\<open>db\<close>, both flags and
  the snapshot file as they are, and \<^verbatim>\<open>get\<close> returns for every key what it returned
  before; it has no failing branch. The log file is the one thing it writes.
\<close>

lemma empty_flush_keeps_memory:
  assumes "pendingLog s = []"
  shows "pendingLog (PersistentHashTable_dropLogs s) = [] \<and>
         db (PersistentHashTable_dropLogs s) = db s \<and>
         dropping (PersistentHashTable_dropLogs s) = dropping s \<and>
         cancelThread (PersistentHashTable_dropLogs s) = cancelThread s \<and>
         dbFile (PersistentHashTable_dropLogs s) = dbFile s \<and>
         (\<forall>k. PersistentHashTable_get (PersistentHashTable_dropLogs s) k
               = PersistentHashTable_get s k) \<and>
         (logsFile s = Some (write_entries []) \<longrightarrow> PersistentHashTable_dropLogs s = s)"
  using assms
  by (simp add: dropLogs_empty_pending PersistentHashTable_get_def)

text \<open>
  C5 (flush with an empty pending log). After \<^verbatim>\<open>put("a", 0)\<close> and one flush the
  pending log is empty and the log file holds the pair, so that a restart recovers
  it. A second flush, with nothing pending, rewrites the log file to the empty log:
  the durable state has changed, and a restart recovers nothing.
\<close>

theorem empty_flush_erases_logged_pair:
  "pendingLog (PersistentHashTable_dropLogs (PersistentHashTable_put ''a'' 0 fresh_table)) = [] \<and>
   logsFile (PersistentHashTable_dropLogs (PersistentHashTable_put ''a'' 0 fresh_table))
     = Some ''1 a 0 '' \<and>
   logsFile (PersistentHashTable_dropLogs
      (PersistentHashTable_dropLogs (PersistentHashTable_put ''a'' 0 fresh_table)))
     = Some ''0 '' \<and>
   map_sum id db
     (restart (PersistentHashTable_dropLogs (PersistentHashTable_put ''a'' 0 fresh_table)))
     = Inr [(''a'', 0)] \<and>
   map_sum id db
     (restart (PersistentHashTable_dropLogs
        (PersistentHashTable_dropLogs (PersistentHashTable_put ''a'' 0 fresh_table))))
     = Inr []"
  by (simp add: engine_defs recovery_defs)

text \<open>
  The destructor: whatever is pending goes to the log file, with the snapshot thread
  stopped.
\<close>

lemma destroy_flushes_pending:
  "logsFile (PersistentHashTable_destroy s) = Some (write_entries (pendingLog s)) \<and>
   pendingLog (PersistentHashTable_destroy s) = [] \<and>
   \<not> dropping (PersistentHashTable_destroy s)"
  by (simp add: PersistentHashTable_destroy_def join_dropThread_def PersistentHashTable_dropLogs_def
      dropTable_end_def dropTable_write_def Let_def)

text \<open>
  C8 (graceful shutdown). The pair of \<^verbatim>\<open>put("a", 0)\<close> has been flushed to the log and
  merged into \<^verbatim>\<open>db\<close>; no snapshot has run yet. The destructor flushes once more, from a
  pending log that is now empty: the log file holds no entry, there is no snapshot
  file, and the restarted engine does not know the key.
\<close>

theorem graceful_shutdown_loses_flushed_write:
  "PersistentHashTable_get
     (PersistentHashTable_dropLogs (PersistentHashTable_put ''a'' 0 fresh_table)) ''a'' = Some 0 \<and>
   logsFile (PersistentHashTable_destroy
     (PersistentHashTable_dropLogs (PersistentHashTable_put ''a'' 0 fresh_table))) = Some ''0 '' \<and>
   dbFile (PersistentHashTable_destroy
     (PersistentHashTable_dropLogs (PersistentHashTable_put ''a'' 0 fresh_table))) = None \<and>
   map_sum id (\<lambda>t. PersistentHashTable_get t ''a'')
     (restart (PersistentHashTable_destroy
        (PersistentHashTable_dropLogs (PersistentHashTable_put ''a'' 0 fresh_table))))
     = Inr None"
  by (simp add: engine_defs recovery_defs)

text \<open>
  C2 (recovery round trip). Two runs of the scenario. In the first, with the
  reactor's flush after every write, one key is written and a snapshot taken, then
  two more keys are written: the flush after \<open>c\<close> has erased \<open>b\<close> from the log, a
  restart at that point recovers \<open>a\<close> and \<open>c\<close> without \<open>b\<close>, and a restart after a graceful
  shutdown recovers \<open>a\<close> alone. In the second, the key written before the snapshot
  contains a space: after a graceful shutdown the restart reads the snapshot back
  as the key \<open>a\<close> with the value 0.
\<close>

theorem recovery_loses_entries:
  "map (PersistentHashTable_get
          (PersistentHashTable_dropLogs (PersistentHashTable_put ''c'' 2
            (PersistentHashTable_dropLogs (PersistentHashTable_put ''b'' 1
              (PersistentHashTable_dropTable (PersistentHashTable_dropLogs
                (PersistentHashTable_put ''a'' 0 fresh_table)))))))) [''a'', ''b'', ''c'']
     = [Some 0, Some 1, Some 2] \<and>
   map_sum id db
     (restart
        (PersistentHashTable_dropLogs (PersistentHashTable_put ''c'' 2
          (PersistentHashTable_dropLogs (PersistentHashTable_put ''b'' 1
            (PersistentHashTable_dropTable (PersistentHashTable_dropLogs
              (PersistentHashTable_put ''a'' 0 fresh_table))))))))
     = Inr [(''a'', 0), (''c'', 2)] \<and>
   map_sum id db
     (restart (PersistentHashTable_destroy
        (PersistentHashTable_dropLogs (PersistentHashTable_put ''c'' 2
          (PersistentHashTable_dropLogs (PersistentHashTable_put ''b'' 1
            (PersistentHashTable_dropTable (PersistentHashTable_dropLogs
              (PersistentHashTable_put ''a'' 0 fresh_table)))))))))
     = Inr [(''a'', 0)] \<and>
   map (PersistentHashTable_get
          (PersistentHashTable_put ''c'' 9
            (PersistentHashTable_dropTable (PersistentHashTable_dropLogs
              (PersistentHashTable_put ''a b'' 5 fresh_table))))) [''a b'', ''c'']
     = [Some 5, Some 9] \<and>
   map_sum id db
     (restart (PersistentHashTable_destroy
        (PersistentHashTable_put ''c'' 9
          (PersistentHashTable_dropTable (PersistentHashTable_dropLogs
            (PersistentHashTable_put ''a b'' 5 fresh_table))))))
     = Inr [(''a'', 0), (''c'', 9)]"
  by (simp add: engine_defs recovery_defs scan_pending.simps size_to_int_def)

subsection \<open>What a restart reads back\<close>

text \<open>
  The extraction operators read back what the insertion operators wrote, as long as
  a key is not empty and holds no white space and the number of entries fits an
  \<^verbatim>\<open>int\<close>.
\<close>

lemma digit_char:
  "d < 10 \<Longrightarrow> is_digit (''0123456789'' ! d) \<and> digit_val (''0123456789'' ! d) = d \<and>
     \<not> is_space (''0123456789'' ! d) \<and> ''0123456789'' ! d \<noteq> CHR ''-'' \<and>
     ''0123456789'' ! d \<noteq> CHR ''+''"
proof -
  assume "d < 10"
  then consider "d = 0" | "d = 1" | "d = 2" | "d = 3" | "d = 4" | "d = 5" | "d = 6" | "d = 7"
    | "d = 8" | "d = 9"
    by atomize_elim arith
  then show ?thesis
    by cases (simp_all add: is_digit_def digit_val_def is_space_def)
qed

lemma digits_val_snoc: "digits_val (ds @ [c]) = 10 * digits_val ds + digit_val c"
  by (simp add: digits_val_def)

lemma show_nat_digits:
  "show_nat n \<noteq> [] \<and> list_all is_digit (show_nat n) \<and> digits_val (show_nat n) = n"
proof (induction n rule: show_nat.induct)
  case (1 n)
  show ?case
  proof (cases "n < 10")
    case True
    then show ?thesis
      using digit_char [of n] by (simp add: show_nat.simps [of n] digits_val_def)
  next
    case False
    have "n mod 10 < 10" by simp
    from digit_char [OF this] "1.IH" [OF False] False show ?thesis
      by (simp add: show_nat.simps [of n] digits_val_snoc)
  qed
qed

lemma hd_show_nat:
  "is_digit (hd (show_nat n))"
  using show_nat_digits [of n] by (cases "show_nat n") simp_all

lemma is_digit_not_space: "is_digit c \<Longrightarrow> \<not> is_space c \<and> c \<noteq> CHR ''-'' \<and> c \<noteq> CHR ''+''"
  by (auto simp add: is_digit_def is_space_def)

lemma space_not_digit [simp]: "\<not> is_digit CHR '' ''" "is_space CHR '' ''"
  by (simp_all add: is_digit_def is_space_def)

lemma split_number_show_nat:
  "split_number (show_nat n @ CHR '' '' # rest) = (False, show_nat n, CHR '' '' # rest)"
proof -
  obtain c cs where sn: "show_nat n = c # cs"
    using show_nat_digits [of n] by (cases "show_nat n") auto
  have all: "\<forall>x\<in>set (show_nat n). is_digit x"
    using show_nat_digits [of n] by (simp add: list_all_iff)
  then have "is_digit c" by (simp add: sn)
  then have c: "c \<noteq> CHR ''-''" "c \<noteq> CHR ''+''"
    using is_digit_not_space by blast+
  have t: "takeWhile is_digit (show_nat n @ CHR '' '' # rest) = show_nat n"
    using all by (simp add: takeWhile_tail)
  have d: "dropWhile is_digit (show_nat n @ CHR '' '' # rest) = CHR '' '' # rest"
    using all by (simp add: dropWhile_append2)
  show ?thesis
    using c t d by (simp add: split_number_def sn)
qed

lemma sentry_space:
  "c \<noteq> [] \<Longrightarrow> \<not> is_space (hd c) \<Longrightarrow>
   sentry \<lparr>unread = CHR '' '' # c, eofbit = False, failbit = False\<rparr>
     = (\<lparr>unread = c, eofbit = False, failbit = False\<rparr>, True)"
  by (cases c) (simp_all add: sentry_def good_def Let_def)

lemma sentry_nospace:
  "c \<noteq> [] \<Longrightarrow> \<not> is_space (hd c) \<Longrightarrow>
   sentry \<lparr>unread = c, eofbit = False, failbit = False\<rparr>
     = (\<lparr>unread = c, eofbit = False, failbit = False\<rparr>, True)"
  by (cases c) (simp_all add: sentry_def good_def Let_def)

lemma read_uint64_show_nat:
  "read_uint64 \<lparr>unread = CHR '' '' # show_nat (unat v) @ CHR '' '' # rest,
                 eofbit = False, failbit = False\<rparr>
     = (Some v, \<lparr>unread = CHR '' '' # rest, eofbit = False, failbit = False\<rparr>)"
proof -
  let ?c = "show_nat (unat v) @ CHR '' '' # rest"
  have ne: "?c \<noteq> []" by simp
  have "hd ?c = hd (show_nat (unat v))"
    using show_nat_digits [of "unat v"] by simp
  then have "\<not> is_space (hd ?c)"
    using hd_show_nat [of "unat v"] is_digit_not_space by simp
  from sentry_space [OF ne this]
  have s: "sentry \<lparr>unread = CHR '' '' # ?c, eofbit = False, failbit = False\<rparr>
     = (\<lparr>unread = ?c, eofbit = False, failbit = False\<rparr>, True)" .
  have lt: "\<not> 2 ^ 64 \<le> unat v"
    using unsigned_less [of v, where 'a = nat] by simp
  show ?thesis
    unfolding read_uint64_def s
    using show_nat_digits [of "unat v"] lt
    by (simp add: split_number_show_nat Let_def)
qed

lemma read_string_plain:
  assumes "plain_key k"
  shows "read_string \<lparr>unread = CHR '' '' # k @ CHR '' '' # rest, eofbit = False, failbit = False\<rparr>
     = (k, \<lparr>unread = CHR '' '' # rest, eofbit = False, failbit = False\<rparr>)"
proof -
  let ?c = "k @ CHR '' '' # rest"
  from assms have k: "k \<noteq> []" and all: "\<forall>x\<in>set k. \<not> is_space x"
    by (simp_all add: plain_key_def list_all_iff)
  have ne: "?c \<noteq> []" by simp
  have "\<not> is_space (hd ?c)"
    using k all by (cases k) simp_all
  from sentry_space [OF ne this]
  have s: "sentry \<lparr>unread = CHR '' '' # ?c, eofbit = False, failbit = False\<rparr>
     = (\<lparr>unread = ?c, eofbit = False, failbit = False\<rparr>, True)" .
  have t: "takeWhile (\<lambda>c. \<not> is_space c) ?c = k"
    using all by (simp add: takeWhile_tail)
  have d: "dropWhile (\<lambda>c. \<not> is_space c) ?c = CHR '' '' # rest"
    using all by (simp add: dropWhile_append2)
  show ?thesis
    unfolding read_string_def s by (simp add: t d Let_def)
qed

text \<open>\<^verbatim>\<open>readFromFile\<close> after \<^verbatim>\<open>writeToFile\<close>, and the two loops of the constructor.\<close>

lemma readFromFile_entry:
  assumes "plain_key k"
  shows "readFromFile \<lparr>unread = CHR '' '' # writeToFile k v @ rest, eofbit = False, failbit = False\<rparr>
     = ((k, Some v), \<lparr>unread = CHR '' '' # rest, eofbit = False, failbit = False\<rparr>)"
  unfolding readFromFile_def writeToFile_def
  using read_string_plain [OF assms, of "show_nat (unat v) @ CHR '' '' # rest"]
    read_uint64_show_nat [of v rest]
  by simp

lemma read_entries_written:
  assumes "list_all plain_key (map fst es)"
  shows "read_entries (length es)
           \<lparr>unread = CHR '' '' # concat (map (\<lambda>(k, v). writeToFile k v) es),
            eofbit = False, failbit = False\<rparr> d
         = Inr (fold (\<lambda>(k, v). AList.update k v) es d)"
  using assms
proof (induction es arbitrary: d)
  case Nil
  show ?case by simp
next
  case (Cons e es)
  obtain k v where e: "e = (k, v)" by (cases e)
  from Cons.prems have k: "plain_key k" and rest: "list_all plain_key (map fst es)"
    by (simp_all add: e)
  show ?case
    using readFromFile_entry [OF k, of v "concat (map (\<lambda>(k, v). writeToFile k v) es)"]
      Cons.IH [OF rest, of "AList.update k v d"]
    by (simp add: e)
qed

lemma read_int_show_nat:
  assumes "n < 2 ^ 31"
  shows "read_int \<lparr>unread = show_nat n @ CHR '' '' # rest, eofbit = False, failbit = False\<rparr>
     = (Some (int n), \<lparr>unread = CHR '' '' # rest, eofbit = False, failbit = False\<rparr>)"
proof -
  let ?c = "show_nat n @ CHR '' '' # rest"
  have ne: "?c \<noteq> []" by simp
  have "hd ?c = hd (show_nat n)"
    using show_nat_digits [of n] by simp
  then have "\<not> is_space (hd ?c)"
    using hd_show_nat [of n] is_digit_not_space by simp
  from sentry_nospace [OF ne this]
  have s: "sentry \<lparr>unread = ?c, eofbit = False, failbit = False\<rparr>
     = (\<lparr>unread = ?c, eofbit = False, failbit = False\<rparr>, True)" .
  have "int n < 2 ^ 31"
    using assms by (metis of_nat_less_numeral_power_cancel_iff)
  then have r: "\<not> int n < - (2 ^ 31)" "\<not> 2 ^ 31 - 1 < int n"
    by simp_all
  show ?thesis
    unfolding read_int_def s
    using show_nat_digits [of n] r
    by (simp add: split_number_show_nat Let_def)
qed

lemma load_file_written:
  assumes "list_all plain_key (map fst es)" and "length es < 2 ^ 31"
  shows "load_file (Some (write_entries es)) d = Inr (fold (\<lambda>(k, v). AList.update k v) es d)"
  unfolding load_file_def write_entries_def
  using read_int_show_nat [OF assms(2), of "concat (map (\<lambda>(k, v). writeToFile k v) es)"]
    read_entries_written [OF assms(1), of d]
  by (simp add: ifstream_def good_def)

lemma load_file_absent: "load_file None d = Inr d"
  by (simp add: load_file_def ifstream_def good_def)

text \<open>
  Where there was no log file before, the empty log a flush with nothing pending writes
  changes nothing in what a restart recovers.
\<close>

lemma empty_flush_recovery_without_log:
  assumes "pendingLog s = []" and "logsFile s = None"
  shows "map_sum id db (restart (PersistentHashTable_dropLogs s)) = map_sum id db (restart s)"
proof -
  have "load_file (Some (write_entries [])) d = Inr d" for d
    using load_file_written [of "[]" d] by simp
  then show ?thesis
    using assms
    by (simp add: restart_def PersistentHashTable_init_def dropLogs_empty_pending load_file_absent
        split: sum.splits)
qed


text \<open>
  The scenario of C2 without a flush between the writes: \<open>N\<close> writes, a snapshot, \<open>M\<close>
  more writes, a graceful shutdown and a restart. The restarted engine returns for
  every key what the engine returned before the shutdown.
\<close>

lemma keys_fold_update:
  "fst ` set (fold (\<lambda>(k, v). AList.update k v) es d) = fst ` set d \<union> fst ` set es"
proof (induction es arbitrary: d)
  case Nil
  show ?case by simp
next
  case (Cons e es)
  obtain k v where e: "e = (k, v)" by (cases e)
  show ?case
    by (simp add: e Cons.IH dom_update Un_assoc)
qed

lemma length_update_le: "length (AList.update k v al) \<le> Suc (length al)"
  by (induction al) auto

lemma length_fold_update:
  "length (fold (\<lambda>(k, v). AList.update k v) es d) \<le> length d + length es"
proof (induction es arbitrary: d)
  case Nil
  show ?case by simp
next
  case (Cons e es)
  obtain k v where e: "e = (k, v)" by (cases e)
  have "length (fold (\<lambda>(k, v). AList.update k v) es (AList.update k v d))
          \<le> length (AList.update k v d) + length es"
    by (rule Cons.IH)
  also have "\<dots> \<le> Suc (length d) + length es"
    using length_update_le [of k v d] by simp
  finally show ?case by (simp add: e)
qed

lemma latest_None_iff: "latest es k = None \<longleftrightarrow> k \<notin> fst ` set es"
  by (simp add: latest_def map_of_eq_None_iff)

lemma puts_run_not_dropping:
  "\<not> dropping s \<Longrightarrow>
   calls_run (map (\<lambda>(k, v). Put k v) es) s
     = s\<lparr>pendingLog := pendingLog s @ es,
          db := fold (\<lambda>(k, v). AList.update k v) es (db s)\<rparr>"
  unfolding calls_run_def
proof (induction es arbitrary: s)
  case Nil
  show ?case by simp
next
  case (Cons e es)
  obtain k v where e: "e = (k, v)" by (cases e)
  let ?s = "PersistentHashTable_put k v s"
  have s: "?s = s\<lparr>pendingLog := pendingLog s @ [(k, v)], db := AList.update k v (db s)\<rparr>"
    using Cons.prems by (simp add: PersistentHashTable_put_def Let_def)
  then have "\<not> dropping ?s" using Cons.prems by simp
  from Cons.IH [OF this] show ?case
    by (simp add: e s)
qed

lemma init_written:
  assumes "list_all plain_key (map fst lg)" and "length lg < 2 ^ 31"
    and "list_all plain_key (map fst snap)" and "length snap < 2 ^ 31"
  shows "PersistentHashTable_init (Some (write_entries lg)) (Some (write_entries snap))
     = Inr \<lparr>pendingLog = [],
            db = fold (\<lambda>(k, v). AList.update k v) lg (fold (\<lambda>(k, v). AList.update k v) snap []),
            dropping = False, cancelThread = False,
            logsFile = Some (write_entries lg), dbFile = Some (write_entries snap)\<rparr>"
  by (simp add: PersistentHashTable_init_def load_file_written [OF assms(1,2)]
      load_file_written [OF assms(3,4)])

lemma recovery_roundtrip_without_flush:
  assumes keys: "list_all plain_key (map fst (es1 @ es2))"
    and len: "length (es1 @ es2) < 2 ^ 31"
  shows "\<exists>t. restart (PersistentHashTable_destroy
                (calls_run (map (\<lambda>(k, v). Put k v) es2)
                  (PersistentHashTable_dropTable
                    (calls_run (map (\<lambda>(k, v). Put k v) es1) fresh_table)))) = Inr t \<and>
             (\<forall>k. PersistentHashTable_get t k
                   = PersistentHashTable_get
                       (calls_run (map (\<lambda>(k, v). Put k v) es2)
                         (PersistentHashTable_dropTable
                           (calls_run (map (\<lambda>(k, v). Put k v) es1) fresh_table))) k)"
proof -
  let ?upd = "\<lambda>(k, v). AList.update k v"
  let ?s1 = "calls_run (map (\<lambda>(k, v). Put k v) es1) fresh_table"
  let ?s2 = "PersistentHashTable_dropTable ?s1"
  let ?s3 = "calls_run (map (\<lambda>(k, v). Put k v) es2) ?s2"
  let ?snap = "fold ?upd es1 []"
  have s1: "?s1 = fresh_table\<lparr>pendingLog := es1, db := ?snap\<rparr>"
    by (subst puts_run_not_dropping) (simp_all add: fresh_table_def)
  have s2: "?s2 = fresh_table\<lparr>pendingLog := es1, db := ?snap,
                    dbFile := Some (write_entries ?snap)\<rparr>"
    unfolding PersistentHashTable_dropTable_def dropTable_begin_def dropTable_write_def
      dropTable_end_def s1
    by (simp add: fresh_table_def)
  have s3: "?s3 = fresh_table\<lparr>pendingLog := es1 @ es2, db := fold ?upd (es1 @ es2) [],
                    dbFile := Some (write_entries ?snap)\<rparr>"
    unfolding s2 by (subst puts_run_not_dropping) (simp_all add: fresh_table_def)
  have files: "logsFile (PersistentHashTable_destroy ?s3) = Some (write_entries (es1 @ es2))"
      "dbFile (PersistentHashTable_destroy ?s3) = Some (write_entries ?snap)"
    unfolding s3
    by (simp_all add: PersistentHashTable_destroy_def join_dropThread_def
        PersistentHashTable_dropLogs_def Let_def fresh_table_def)
  have "fst ` set ?snap = fst ` set es1"
    using keys_fold_update [of es1 "[]"] by simp
  then have snap_keys: "list_all plain_key (map fst ?snap)"
    using keys by (auto simp add: list_all_iff)
  have "length ?snap \<le> length es1"
    using length_fold_update [of es1 "[]"] by simp
  then have snap_len: "length ?snap < 2 ^ 31"
    using len by simp
  let ?t = "\<lparr>pendingLog = [], db = fold ?upd (es1 @ es2) (fold ?upd ?snap []),
             dropping = False, cancelThread = False,
             logsFile = Some (write_entries (es1 @ es2)),
             dbFile = Some (write_entries ?snap)\<rparr>"
  have r: "restart (PersistentHashTable_destroy ?s3) = Inr ?t"
    unfolding restart_def files
    by (rule init_written [OF keys len snap_keys snap_len])
  have "PersistentHashTable_get ?t k = PersistentHashTable_get ?s3 k" for k
  proof -
    have "length (pendingLog ?s3) \<le> 2 ^ 31"
      using len by (simp add: s3)
    then have "PersistentHashTable_get ?s3 k = logical_value ?s3 k"
      by (rule get_logical_value)
    also have "\<dots> = latest (es1 @ es2) k"
      by (simp add: s3 logical_value_def map_of_fold_update del: fold_append
          split: option.splits)
    finally have a: "PersistentHashTable_get ?s3 k = latest (es1 @ es2) k" .
    have snap_none: "map_of (fold ?upd ?snap []) k = None" if "latest (es1 @ es2) k = None"
    proof -
      from that have "k \<notin> fst ` set es1"
        by (auto simp add: latest_None_iff)
      then have "k \<notin> fst ` set (fold ?upd ?snap [])"
        by (simp add: keys_fold_update)
      then show ?thesis
        by (simp add: map_of_eq_None_iff)
    qed
    have "PersistentHashTable_get ?t k = map_of (db ?t) k"
      by (simp add: PersistentHashTable_get_def)
    also have "\<dots> = latest (es1 @ es2) k"
      using snap_none by (simp add: map_of_fold_update del: fold_append split: option.splits)
    finally show ?thesis
      using a by simp
  qed
  with r show ?thesis by blast
qed

section \<open>Properties of the value store\<close>

lemma length_le_bytes [simp]: "length (le_bytes k n) = k"
  by (induction k arbitrary: n) simp_all

lemma le_value_le_bytes: "le_value (le_bytes k n) = n mod 256 ^ k"
proof (induction k arbitrary: n)
  case 0
  show ?case by simp
next
  case (Suc k)
  have "le_value (le_bytes (Suc k) n) = n mod 256 + 256 * (n div 256 mod 256 ^ k)"
    by (simp add: Suc.IH)
  also have "\<dots> = n mod (256 * 256 ^ k)"
    by (simp add: mod_mult2_eq)
  finally show ?case by simp
qed

lemma le_bytes_8:
  "le_bytes 8 n =
     [char_of n, char_of (n div 256), char_of (n div 256 div 256),
      char_of (n div 256 div 256 div 256), char_of (n div 256 div 256 div 256 div 256),
      char_of (n div 256 div 256 div 256 div 256 div 256),
      char_of (n div 256 div 256 div 256 div 256 div 256 div 256),
      char_of (n div 256 div 256 div 256 div 256 div 256 div 256 div 256)]"
proof -
  have eq8: "(8::nat) = Suc (Suc (Suc (Suc (Suc (Suc (Suc (Suc 0)))))))"
    by simp
  show ?thesis
    unfolding eq8 by (simp del: div_mult2_eq)
qed

text \<open>The definitions a concrete run of the value store unfolds.\<close>

lemmas store_defs =
  BinaryPersistentHashTable_get_def BinaryPersistentHashTable_put_def
  BinaryPersistentHashTable_init_def fseek_set_def scan_pending.simps size_to_int_def le_bytes_8

lemma unat_word_of_nat_64: "n < 2 ^ 64 \<Longrightarrow> unat (word_of_nat n :: 64 word) = n"
  by (simp add: unat_of_nat)

subsection \<open>Appending with the indicator at the end of the file\<close>

text \<open>
  \<^verbatim>\<open>put\<close> leaves the indicator at the end of the file, and so does a \<^verbatim>\<open>get\<close> of a key
  the index knows; a new file starts empty. A file that is reopened with bytes in it
  is the one case where the indicator is elsewhere.
\<close>

lemma position_put:
  "position (BinaryPersistentHashTable_put k val s)
     = length (contents (BinaryPersistentHashTable_put k val s))"
  by (simp add: BinaryPersistentHashTable_put_def Let_def)

lemma position_get:
  "PersistentHashTable_get (table s) k \<noteq> None \<Longrightarrow>
   position (snd (BinaryPersistentHashTable_get s k))
     = length (contents (snd (BinaryPersistentHashTable_get s k)))"
  by (auto simp add: BinaryPersistentHashTable_get_def Let_def split: option.splits)

lemma position_init_new: "position (BinaryPersistentHashTable_init None t)
     = length (contents (BinaryPersistentHashTable_init None t))"
  by (simp add: BinaryPersistentHashTable_init_def)

text \<open>
  With the indicator at the end, \<^verbatim>\<open>put\<close> appends the length and the payload and
  records the offset of the length field, and \<^verbatim>\<open>get\<close> reads the payload back.
\<close>

lemma put_at_end:
  assumes "position s = length (contents s)"
    and "length (contents s) < 2 ^ 64" and "length val < 2 ^ 64"
    and "length (pendingLog (table s)) < 2 ^ 31"
  shows "contents (BinaryPersistentHashTable_put k val s)
           = contents s @ le_bytes 8 (length val) @ val \<and>
         PersistentHashTable_get (table (BinaryPersistentHashTable_put k val s)) k
           = Some (word_of_nat (length (contents s)))"
proof -
  have "length (pendingLog (PersistentHashTable_put k (word_of_nat (position s)) (table s)))
          \<le> 2 ^ 31"
    using assms(4) by (simp add: length_pendingLog_put)
  then have "PersistentHashTable_get
               (PersistentHashTable_put k (word_of_nat (position s)) (table s)) k
             = Some (word_of_nat (position s))"
    by (simp add: get_logical_value logical_value_put_same)
  then show ?thesis
    using assms(1,3)
    by (simp add: BinaryPersistentHashTable_put_def Let_def unat_word_of_nat_64)
qed

lemma value_roundtrip_at_end:
  assumes "position s = length (contents s)"
    and "length (contents s) < 2 ^ 63" and "length val < 2 ^ 64"
    and "length (pendingLog (table s)) < 2 ^ 31"
  shows "fst (BinaryPersistentHashTable_get (BinaryPersistentHashTable_put k val s) k) = Inr val"
proof -
  let ?s = "BinaryPersistentHashTable_put k val s"
  let ?n = "length (contents s)"
  have lt: "?n < 2 ^ 64"
    using assms(2) by (rule less_trans) simp
  from put_at_end [OF assms(1) lt assms(3,4), of k]
  have c: "contents ?s = contents s @ le_bytes 8 (length val) @ val"
    and g: "PersistentHashTable_get (table ?s) k = Some (word_of_nat ?n)"
    by simp_all
  have u: "unat (word_of_nat ?n :: 64 word) = ?n"
    using lt by (rule unat_word_of_nat_64)
  have seek: "fseek_set (position ?s) (word_of_nat ?n) = ?n"
    using assms(2) by (simp add: fseek_set_def u)
  have field: "take 8 (drop ?n (contents ?s)) = le_bytes 8 (length val)"
    by (simp add: c)
  have sz: "le_value (le_bytes 8 (length val)) = length val"
    using assms(3) by (simp add: le_value_le_bytes)
  have bytes: "take (length val) (drop (?n + 8) (contents ?s)) = val"
    by (simp add: c)
  have len: "length (contents ?s) = ?n + 8 + length val"
    by (simp add: c)
  show ?thesis
    unfolding BinaryPersistentHashTable_get_def g
    by (simp add: Let_def seek field sz bytes len)
qed

subsection \<open>Appending to a reopened file\<close>

text \<open>
  C6 (the offset \<^verbatim>\<open>put\<close> records). A first run stores \<open>x\<close> under \<open>a\<close> and flushes the
  log: the value file holds nine bytes. The process restarts: the index is recovered
  from the log, the value file is reopened, and the indicator is at 0. Now
  \<^verbatim>\<open>put("b", "yz")\<close> appends its record after the nine bytes and records the offset 0
  for \<open>b\<close>, where the record of \<open>a\<close> begins.
\<close>

theorem put_after_reopen_records_offset_zero:
  "contents (BinaryPersistentHashTable_put ''a'' ''x'' (BinaryPersistentHashTable_init None fresh_table))
     = le_bytes 8 1 @ ''x'' \<and>
   restart (PersistentHashTable_dropLogs
     (table (BinaryPersistentHashTable_put ''a'' ''x'' (BinaryPersistentHashTable_init None fresh_table))))
     = Inr (fresh_table\<lparr>db := [(''a'', 0)], logsFile := Some ''1 a 0 ''\<rparr>) \<and>
   position (BinaryPersistentHashTable_init (Some (le_bytes 8 1 @ ''x''))
     (fresh_table\<lparr>db := [(''a'', 0)], logsFile := Some ''1 a 0 ''\<rparr>)) = 0 \<and>
   contents (BinaryPersistentHashTable_put ''b'' ''yz''
     (BinaryPersistentHashTable_init (Some (le_bytes 8 1 @ ''x''))
       (fresh_table\<lparr>db := [(''a'', 0)], logsFile := Some ''1 a 0 ''\<rparr>)))
     = (le_bytes 8 1 @ ''x'') @ (le_bytes 8 2 @ ''yz'') \<and>
   length (le_bytes 8 1 @ ''x'') = 9 \<and>
   PersistentHashTable_get (table (BinaryPersistentHashTable_put ''b'' ''yz''
     (BinaryPersistentHashTable_init (Some (le_bytes 8 1 @ ''x''))
       (fresh_table\<lparr>db := [(''a'', 0)], logsFile := Some ''1 a 0 ''\<rparr>)))) ''b'' = Some 0"
  by (simp add: store_defs engine_defs recovery_defs)

text \<open>
  C7 (value round trip). In the same run, \<^verbatim>\<open>get("b")\<close> right after \<^verbatim>\<open>put("b", "yz")\<close>
  returns \<open>x\<close>.
\<close>

theorem value_roundtrip_fails_after_reopen:
  "fst (BinaryPersistentHashTable_get
     (BinaryPersistentHashTable_put ''b'' ''yz''
       (BinaryPersistentHashTable_init (Some (le_bytes 8 1 @ ''x''))
         (fresh_table\<lparr>db := [(''a'', 0)], logsFile := Some ''1 a 0 ''\<rparr>))) ''b'') = Inr ''x''"
  by (simp add: store_defs engine_defs)

section \<open>Properties of the request handlers\<close>

text \<open>
  C9 (malformed request). Whatever the decoder, a payload it rejects makes
  \<^verbatim>\<open>handle_get\<close> and \<^verbatim>\<open>handle_put\<close> call \<^verbatim>\<open>abort()\<close>, and so does the handler for every
  request type: the process ends, with every connection it serves.
\<close>

theorem malformed_request_aborts:
  "handle_get (parse_get(request := None)) request s = Inl ProcessAborted \<and>
   handle_put (parse_put(request := None)) request s = Inl ProcessAborted \<and>
   handler PUT_REQUEST GET_REQUEST (parse_put(request := None)) (parse_get(request := None))
     request_type request s = Inl ProcessAborted"
  by (simp add: handle_get_def handle_put_def handler_def)


text \<open>
  Let the value stored for \<open>k1\<close> be the empty string: the index maps \<open>k1\<close> to an
  offset at which the value file holds a length field of 0. Let \<open>k2\<close> be a key the
  index does not know. Then \<^verbatim>\<open>get\<close> returns the empty string for both, and the
  responses to GET requests for the two keys (with one request identifier) are the
  same message, with the value field unset.
\<close>

lemma empty_record_indistinguishable_from_absent:
  assumes "PersistentHashTable_get (table s) k1 = Some off"
    and "unat off < 2 ^ 63"
    and "take 8 (drop (unat off) (contents s)) = le_bytes 8 0"
    and "PersistentHashTable_get (table s) k2 = None"
    and "ParseFromArray request1 = Some \<lparr>get_request_id = i, get_key = k1\<rparr>"
    and "ParseFromArray request2 = Some \<lparr>get_request_id = i, get_key = k2\<rparr>"
  shows "fst (BinaryPersistentHashTable_get s k1) = Inr [] \<and>
         fst (BinaryPersistentHashTable_get s k2) = Inr [] \<and>
         map_sum id fst (handle_get ParseFromArray request1 s)
           = Inr (GetResponse \<lparr>get_response_id = i, get_response_offset = None\<rparr>) \<and>
         map_sum id fst (handle_get ParseFromArray request2 s)
           = Inr (GetResponse \<lparr>get_response_id = i, get_response_offset = None\<rparr>)"
proof -
  have "le_value (le_bytes 8 0) = 0"
    by (simp add: le_value_le_bytes)
  moreover have "length (take 8 (drop (unat off) (contents s))) = length (le_bytes 8 0)"
    by (simp only: assms(3))
  then have "min (length (contents s) - unat off) 8 = 8"
    by (simp only: length_take length_drop length_le_bytes ac_simps)
  ultimately have a: "fst (BinaryPersistentHashTable_get s k1) = Inr []"
    using assms(1-3)
    by (simp add: BinaryPersistentHashTable_get_def fseek_set_def Let_def)
  have b: "fst (BinaryPersistentHashTable_get s k2) = Inr []"
    using assms(4) by (simp add: BinaryPersistentHashTable_get_def)
  from a have c: "map_sum id fst (handle_get ParseFromArray request1 s)
      = Inr (GetResponse \<lparr>get_response_id = i, get_response_offset = None\<rparr>)"
    by (cases "BinaryPersistentHashTable_get s k1") (simp add: handle_get_def assms(5))
  from b have d: "map_sum id fst (handle_get ParseFromArray request2 s)
      = Inr (GetResponse \<lparr>get_response_id = i, get_response_offset = None\<rparr>)"
    by (cases "BinaryPersistentHashTable_get s k2") (simp add: handle_get_def assms(6))
  from a b c d show ?thesis by blast
qed

text \<open>
  Such a state is what \<^verbatim>\<open>put(k, "")\<close> leaves when the indicator is at the end of the
  file.
\<close>

lemma stored_empty_after_put:
  assumes "position s = length (contents s)"
    and "length (contents s) < 2 ^ 63"
    and "length (pendingLog (table s)) < 2 ^ 31"
  shows "PersistentHashTable_get (table (BinaryPersistentHashTable_put k [] s)) k
           = Some (word_of_nat (length (contents s))) \<and>
         unat (word_of_nat (length (contents s)) :: 64 word) < 2 ^ 63 \<and>
         take 8 (drop (unat (word_of_nat (length (contents s)) :: 64 word))
                   (contents (BinaryPersistentHashTable_put k [] s))) = le_bytes 8 0"
proof -
  have lt: "length (contents s) < 2 ^ 64"
    using assms(2) by (rule less_trans) simp
  have u: "unat (word_of_nat (length (contents s)) :: 64 word) = length (contents s)"
    using lt by (rule unat_word_of_nat_64)
  from put_at_end [OF assms(1) lt _ assms(3), of "[]" k] u assms(2) show ?thesis
    by simp
qed

text \<open>
  C10 (the empty value). On the value file of C6, reopened with the record of \<open>a\<close>
  in it, \<^verbatim>\<open>put("b", "")\<close> records the offset 0 for \<open>b\<close>. The value most recently stored
  for \<open>b\<close> is the empty string, but \<^verbatim>\<open>get("b")\<close> returns \<open>x\<close> and the GET response
  carries it in its value field, while for the key \<open>c\<close>, never written, \<^verbatim>\<open>get\<close> returns
  the empty string and the response leaves the field unset.
\<close>

theorem empty_value_after_reopen_is_distinguishable:
  "fst (BinaryPersistentHashTable_get
     (BinaryPersistentHashTable_put ''b'' []
       (BinaryPersistentHashTable_init (Some (le_bytes 8 1 @ ''x''))
         (fresh_table\<lparr>db := [(''a'', 0)], logsFile := Some ''1 a 0 ''\<rparr>))) ''b'') = Inr ''x'' \<and>
   fst (BinaryPersistentHashTable_get
     (BinaryPersistentHashTable_put ''b'' []
       (BinaryPersistentHashTable_init (Some (le_bytes 8 1 @ ''x''))
         (fresh_table\<lparr>db := [(''a'', 0)], logsFile := Some ''1 a 0 ''\<rparr>))) ''c'') = Inr [] \<and>
   map_sum id fst
     (handle_get (\<lambda>r. Some \<lparr>get_request_id = (1::nat), get_key = r\<rparr>) ''b''
       (BinaryPersistentHashTable_put ''b'' []
         (BinaryPersistentHashTable_init (Some (le_bytes 8 1 @ ''x''))
           (fresh_table\<lparr>db := [(''a'', 0)], logsFile := Some ''1 a 0 ''\<rparr>))))
     = Inr (GetResponse \<lparr>get_response_id = 1, get_response_offset = Some ''x''\<rparr>) \<and>
   map_sum id fst
     (handle_get (\<lambda>r. Some \<lparr>get_request_id = (1::nat), get_key = r\<rparr>) ''c''
       (BinaryPersistentHashTable_put ''b'' []
         (BinaryPersistentHashTable_init (Some (le_bytes 8 1 @ ''x''))
           (fresh_table\<lparr>db := [(''a'', 0)], logsFile := Some ''1 a 0 ''\<rparr>))))
     = Inr (GetResponse \<lparr>get_response_id = 1, get_response_offset = None\<rparr>)"
  by (simp add: handle_get_def store_defs engine_defs)

end
